theory Spec2Isabelle
  imports Main
begin

section \<open>Strings and paths\<close>

text \<open>
  The program is \<^verbatim>\<open>mon.py\<close>, a watch loop that runs the unit tests and rebuilds the
  documentation when a source file changes. A Python string is represented by the bytes
  of its UTF-8 encoding, one \<^typ>\<open>char\<close> a byte: an ASCII character is one byte below
  \<open>0x80\<close>, and every byte of another character is \<open>0x80\<close> or above, so searching for
  \<^verbatim>\<open>/\<close> and \<^verbatim>\<open>.\<close>, slicing at the positions found and comparing strings go on the bytes
  as they go on the characters. Paths follow the POSIX conventions of \<^verbatim>\<open>os.path\<close>
  (separator \<^verbatim>\<open>/\<close>, no alternative separator, extension separator \<^verbatim>\<open>.\<close>).

  \<^verbatim>\<open>str.lower\<close> maps the ASCII letters \<^verbatim>\<open>A\<close>..\<^verbatim>\<open>Z\<close> to \<^verbatim>\<open>a\<close>..\<^verbatim>\<open>z\<close>; every other byte is
  left as it is. That is \<^verbatim>\<open>str.lower\<close> on every string whose characters outside ASCII
  are their own lowercase (caseless scripts, symbols, and letters such as U+2110); the
  case tables of Unicode for the other characters are not part of the program and are
  not modelled.
\<close>

definition ascii_uppercase :: string where
  "ascii_uppercase = ''ABCDEFGHIJKLMNOPQRSTUVWXYZ''"

definition ascii_lowercase :: string where
  "ascii_lowercase = ''abcdefghijklmnopqrstuvwxyz''"

definition lower_char :: "char \<Rightarrow> char" where
  "lower_char c = (case map_of (zip ascii_uppercase ascii_lowercase) c of
                     Some d \<Rightarrow> d | None \<Rightarrow> c)"

text \<open>\<^verbatim>\<open>s.lower()\<close>\<close>

definition lower :: "string \<Rightarrow> string" where
  "lower s = map lower_char s"

text \<open>An ASCII uppercase letter, \<^verbatim>\<open>A\<close>..\<^verbatim>\<open>Z\<close>.\<close>

definition is_ascii_upper :: "char \<Rightarrow> bool" where
  "is_ascii_upper c = (c \<in> set ascii_uppercase)"

text \<open>
  U+2110 SCRIPT CAPITAL I in UTF-8. It is an uppercase letter (\<^verbatim>\<open>str.isupper\<close> holds of
  it) and it has no lowercase form: \<^verbatim>\<open>str.lower\<close> returns it unchanged.
\<close>

definition script_capital_I :: string where
  "script_capital_I = [CHR 0xE2, CHR 0x84, CHR 0x90]"

text \<open>
  A string with at least one uppercase letter, for the uppercase letters named here: the
  ASCII ones and U+2110. Which other characters are uppercase letters is a matter of the
  Unicode tables; every string this predicate holds of has an uppercase letter, and
  nothing is said of the strings it does not hold of.
\<close>

fun has_uppercase_letter :: "string \<Rightarrow> bool" where
  "has_uppercase_letter [] = False"
| "has_uppercase_letter (c # cs) =
     (is_ascii_upper c \<or> take 3 (c # cs) = script_capital_I \<or> has_uppercase_letter cs)"

text \<open>\<^verbatim>\<open>p.rfind(c)\<close>: the highest index of \<open>c\<close> in \<open>p\<close>, or \<open>-1\<close>.\<close>

fun rfind :: "char \<Rightarrow> string \<Rightarrow> int" where
  "rfind c [] = -1"
| "rfind c (x # xs) =
     (let r = rfind c xs in
      if 0 \<le> r then r + 1 else if x = c then 0 else -1)"

text \<open>
  The loop of \<^verbatim>\<open>genericpath._splitext\<close> that skips the leading dots of the file name:
  \<^verbatim>\<open>
      filenameIndex = sepIndex + 1
      while filenameIndex < dotIndex:
          if p[filenameIndex] != extsep:
              return p[:dotIndex], p[dotIndex:]
          filenameIndex += 1
  \<close>
  The function is \<open>True\<close> when the loop runs to its end (every character from the start
  of the file name up to the last dot is a dot) and \<open>False\<close> when it returns early.
\<close>

function leading_dots_only :: "string \<Rightarrow> char \<Rightarrow> int \<Rightarrow> int \<Rightarrow> bool" where
  "leading_dots_only p extsep filenameIndex dotIndex =
     (if filenameIndex < dotIndex then
        (if p ! nat filenameIndex \<noteq> extsep then False
         else leading_dots_only p extsep (filenameIndex + 1) dotIndex)
      else True)"
  by pat_completeness auto
termination
  by (relation "measure (\<lambda>(p, e, i, d). nat (d - i))") auto

declare leading_dots_only.simps [simp del]

text \<open>
  \<^verbatim>\<open>
  def _splitext(p, sep, altsep, extsep):
      sepIndex = p.rfind(sep)
      if altsep:
          altsepIndex = p.rfind(altsep)
          sepIndex = max(sepIndex, altsepIndex)
      dotIndex = p.rfind(extsep)
      if dotIndex > sepIndex:
          ... the loop above ...
      return p, ''
  \<close>
\<close>

definition splitext_generic ::
  "string \<Rightarrow> char \<Rightarrow> char option \<Rightarrow> char \<Rightarrow> string \<times> string" where
  "splitext_generic p sep altsep extsep =
     (let sepIndex0 = rfind sep p;
          sepIndex = (case altsep of None \<Rightarrow> sepIndex0
                      | Some a \<Rightarrow> max sepIndex0 (rfind a p));
          dotIndex = rfind extsep p
      in if dotIndex > sepIndex \<and>
            \<not> leading_dots_only p extsep (sepIndex + 1) dotIndex
         then (take (nat dotIndex) p, drop (nat dotIndex) p)
         else (p, []))"

text \<open>\<^verbatim>\<open>posixpath.splitext\<close>\<close>

definition splitext :: "string \<Rightarrow> string \<times> string" where
  "splitext p = splitext_generic p (CHR ''/'') None (CHR ''.'')"

text \<open>
  \<^verbatim>\<open>
  def getext(filename):
      return os.path.splitext(filename)[-1].lower()
  \<close>
\<close>

definition getext :: "string \<Rightarrow> string" where
  "getext filename = lower (snd (splitext filename))"

text \<open>\<^verbatim>\<open>posixpath.join(a, b)\<close> for two components.\<close>

definition path_join :: "string \<Rightarrow> string \<Rightarrow> string" where
  "path_join a b =
     (if b \<noteq> [] \<and> hd b = CHR ''/'' then b
      else if a = [] \<or> last a = CHR ''/'' then a @ b
      else a @ ''/'' @ b)"

subsection \<open>The classifier as the specification words it\<close>

text \<open>
  The specification describes the classifier as "the lowercased substring after the last
  dot in the final path segment, including the leading dot", and the empty string when
  there is no dot in that segment. These definitions follow those words, not the code.
\<close>

definition spec_final_segment :: "string \<Rightarrow> string" where
  "spec_final_segment p = rev (takeWhile (\<lambda>c. c \<noteq> CHR ''/'') (rev p))"

definition spec_last_dot_suffix :: "string \<Rightarrow> string" where
  "spec_last_dot_suffix seg =
     CHR ''.'' # rev (takeWhile (\<lambda>c. c \<noteq> CHR ''.'') (rev seg))"

definition spec_classify :: "string \<Rightarrow> string" where
  "spec_classify p =
     (let seg = spec_final_segment p in
      if CHR ''.'' \<in> set seg then lower (spec_last_dot_suffix seg) else [])"

text \<open>What stands before the last dot of a segment (empty when it has no dot).\<close>

definition stem_before_last_dot :: "string \<Rightarrow> string" where
  "stem_before_last_dot seg = rev (tl (dropWhile (\<lambda>c. c \<noteq> CHR ''.'') (rev seg)))"

definition only_dots_before_last_dot :: "string \<Rightarrow> bool" where
  "only_dots_before_last_dot seg =
     list_all (\<lambda>c. c = CHR ''.'') (stem_before_last_dot seg)"

text \<open>What stands before the final segment: empty, or ending in the separator.\<close>

definition dir_part :: "string \<Rightarrow> string" where
  "dir_part p = rev (dropWhile (\<lambda>c. c \<noteq> CHR ''/'') (rev p))"

section \<open>The process and its environment\<close>

text \<open>
  What the program does to the outside is recorded in a \<open>world\<close>: the lines printed to
  standard output and to standard error, the working directory of the process, and the
  calls of \<^verbatim>\<open>subprocess.call\<close> with their \<^verbatim>\<open>shell\<close> flag. What the outside answers is an
  \<open>env\<close>: the module constant \<^verbatim>\<open>BASEDIR\<close>, the clock read by \<^verbatim>\<open>datetime.now()\<close>, and the
  outcome of each external command, which is either an exit status or the failure to
  start the program at all (\<^verbatim>\<open>subprocess.call\<close> then raises \<^verbatim>\<open>OSError\<close>). Both oracles
  see the world at the moment of the call, so successive calls may answer differently.
  \<^verbatim>\<open>print\<close> and \<^verbatim>\<open>os.chdir(BASEDIR)\<close> are taken to succeed.
\<close>

record proc_call =
  args :: string
  shell :: bool

record world =
  stdout :: "string list"
  stderr :: "string list"
  cwd :: string
  procs :: "proc_call list"

record datetime =
  year :: nat
  month :: nat
  day :: nat
  hour :: nat
  minute :: nat
  second :: nat

datatype proc_outcome = Exited int | SpawnFailed

datatype error = OSError

record env =
  BASEDIR :: string
  clock :: "world \<Rightarrow> datetime"
  exec :: "proc_call \<Rightarrow> world \<Rightarrow> proc_outcome"

definition digit_char :: "nat \<Rightarrow> char" where
  "digit_char n = ''0123456789'' ! (n mod 10)"

definition pad2 :: "nat \<Rightarrow> string" where
  "pad2 n = [digit_char (n div 10), digit_char n]"

definition pad4 :: "nat \<Rightarrow> string" where
  "pad4 n = [digit_char (n div 1000), digit_char (n div 100), digit_char (n div 10),
             digit_char n]"

text \<open>The directives of \<^verbatim>\<open>strftime\<close> that the program uses; any other is copied.\<close>

definition directive :: "char \<Rightarrow> datetime \<Rightarrow> string" where
  "directive d dt =
     (if d = CHR ''Y'' then pad4 (year dt)
      else if d = CHR ''m'' then pad2 (month dt)
      else if d = CHR ''d'' then pad2 (day dt)
      else if d = CHR ''H'' then pad2 (hour dt)
      else if d = CHR ''M'' then pad2 (minute dt)
      else if d = CHR ''S'' then pad2 (second dt)
      else [CHR ''%'', d])"

fun strftime :: "string \<Rightarrow> datetime \<Rightarrow> string" where
  "strftime [] dt = []"
| "strftime [c] dt = [c]"
| "strftime (c # d # rest) dt =
     (if c = CHR ''%'' then directive d dt @ strftime rest dt
      else c # strftime (d # rest) dt)"

text \<open>
  \<^verbatim>\<open>
  def now():
      return datetime.datetime.now().strftime("%Y/%m/%d %H:%M:%S")
  \<close>
\<close>

definition now :: "env \<Rightarrow> world \<Rightarrow> string" where
  "now e w = strftime ''%Y/%m/%d %H:%M:%S'' (clock e w)"

definition print_stdout :: "string \<Rightarrow> world \<Rightarrow> world" where
  "print_stdout line w = w\<lparr>stdout := stdout w @ [line]\<rparr>"

definition print_stderr :: "string \<Rightarrow> world \<Rightarrow> world" where
  "print_stderr line w = w\<lparr>stderr := stderr w @ [line]\<rparr>"

definition chdir :: "string \<Rightarrow> world \<Rightarrow> world" where
  "chdir d w = w\<lparr>cwd := d\<rparr>"

text \<open>
  \<^verbatim>\<open>subprocess.call(args, shell=...)\<close>: the call is recorded, then it blocks until the
  command has exited and returns its status, or raises when the program cannot be
  started.
\<close>

definition subprocess_call :: "env \<Rightarrow> proc_call \<Rightarrow> world \<Rightarrow> (error + int) \<times> world" where
  "subprocess_call e c w =
     (case exec e c w of
        SpawnFailed \<Rightarrow> (Inl OSError, w\<lparr>procs := procs w @ [c]\<rparr>)
      | Exited status \<Rightarrow> (Inr status, w\<lparr>procs := procs w @ [c]\<rparr>))"

section \<open>Events, actions and the change handler\<close>

record event =
  src_path :: string
  is_directory :: bool

text \<open>
  An action is called with the event and changes the world; it returns normally
  (\<open>None\<close>) or raises (\<open>Some\<close> error). The world reached is kept in both cases.
\<close>

type_synonym 'w action = "event \<Rightarrow> 'w \<Rightarrow> error option \<times> 'w"

definition separator :: string where
  "separator = replicate 79 (CHR ''-'')"

text \<open>
  \<^verbatim>\<open>
  def build_docs(event):
      print("Building docs at %s" % now(), file=sys.stderr)
      print("-" * 79)
      os.chdir(BASEDIR)
      subprocess.call(r'ldoc.lua src', shell=True)
      print("-" * 79)
  \<close>
\<close>

definition build_docs :: "env \<Rightarrow> world action" where
  "build_docs e ev w =
     (let w1 = print_stderr (''Building docs at '' @ now e w) w;
          w2 = print_stdout separator w1;
          w3 = chdir (BASEDIR e) w2;
          (r, w4) = subprocess_call e \<lparr>args = ''ldoc.lua src'', shell = True\<rparr> w3
      in case r of
           Inl err \<Rightarrow> (Some err, w4)
         | Inr status \<Rightarrow> (None, print_stdout separator w4))"

text \<open>
  \<^verbatim>\<open>
  def run_tests(event):
      print("Running unit tests at %s" % now(), file=sys.stderr)
      print("-" * 79)
      os.chdir(BASEDIR)
      subprocess.call(r'busted')
      print("-" * 79)
  \<close>
  \<^verbatim>\<open>shell\<close> is not given here, so it has its default, \<^verbatim>\<open>False\<close>.
\<close>

definition run_tests :: "env \<Rightarrow> world action" where
  "run_tests e ev w =
     (let w1 = print_stderr (''Running unit tests at '' @ now e w) w;
          w2 = print_stdout separator w1;
          w3 = chdir (BASEDIR e) w2;
          (r, w4) = subprocess_call e \<lparr>args = ''busted'', shell = False\<rparr> w3
      in case r of
           Inl err \<Rightarrow> (Some err, w4)
         | Inr status \<Rightarrow> (None, print_stdout separator w4))"

text \<open>
  \<^verbatim>\<open>
  class ChangeHandler(FileSystemEventHandler):
      def __init__(self, extensions, func):
          if isinstance(extensions, str):
              self.__exts = [extensions]
          else:
              self.__exts = list(extensions)
          self.__func = func
  \<close>
\<close>

record 'w ChangeHandler =
  exts :: "string list"
  func :: "'w action"

datatype extensions = Str string | Seq "string list"

definition ChangeHandler_init :: "extensions \<Rightarrow> 'w action \<Rightarrow> 'w ChangeHandler" where
  "ChangeHandler_init extensions f =
     (case extensions of
        Str s \<Rightarrow> \<lparr>exts = [s], func = f\<rparr>
      | Seq xs \<Rightarrow> \<lparr>exts = xs, func = f\<rparr>)"

text \<open>
  \<^verbatim>\<open>
      def on_any_event(self, event):
          if event.is_directory:
              return
          if getext(event.src_path) in self.__exts:
              self.__func(event)
  \<close>
  The method returns the handler object as it is after the call, whether the call raised,
  and the world.
\<close>

definition on_any_event ::
  "'w ChangeHandler \<Rightarrow> event \<Rightarrow> 'w \<Rightarrow> 'w ChangeHandler \<times> error option \<times> 'w" where
  "on_any_event self ev w =
     (if is_directory ev then (self, None, w)
      else if getext (src_path ev) \<in> set (exts self) then (self, func self ev w)
      else (self, None, w))"

text \<open>An action that only records the events it is called with.\<close>

definition record_call :: "(event list) action" where
  "record_call ev log = (None, log @ [ev])"

section \<open>The observer\<close>

text \<open>
  Modelled from the spec: the filesystem watch collaborator, \<^verbatim>\<open>watchdog\<close>'s \<^verbatim>\<open>Observer\<close>,
  which the program imports and which is no part of its source. The specification asks of
  it the registration of a handler against a directory, recursive or not; the delivery of
  changes, as events with a path and a directory flag, to the registered handlers whose
  scope holds the path; and \<^verbatim>\<open>start\<close>, \<^verbatim>\<open>stop\<close> and \<^verbatim>\<open>join\<close>.

  Each registration is a watch of its own. A watch reports the changes in its scope to
  the observer's queue, and the observer's worker takes one report at a time and calls
  the handler of the watch that made it. The watches report independently of each other:
  no order is fixed between the reports of two watches for one change, and a watch may
  report one change more than once. So a delivery names the watch it comes from, and
  what the watches report, and in which order, is an input. The program registers two
  different directories, so every watch has one handler. An exception that leaves a
  handler ends the worker, and nothing more is delivered until the next observer is
  started.
\<close>

record watch =
  handler_id :: nat
  handler :: "world ChangeHandler"
  watch_path :: string
  recursive :: bool

datatype observer_status = Created | Running | Crashed | Stopping | Joined

record observer =
  observer_id :: nat
  watches :: "watch list"
  status :: observer_status

definition Observer :: "nat \<Rightarrow> observer" where
  "Observer oid = \<lparr>observer_id = oid, watches = [], status = Created\<rparr>"

definition schedule ::
  "observer \<Rightarrow> nat \<Rightarrow> world ChangeHandler \<Rightarrow> string \<Rightarrow> bool \<Rightarrow> observer" where
  "schedule obs hid h path rec =
     obs\<lparr>watches := watches obs @
            [\<lparr>handler_id = hid, handler = h, watch_path = path, recursive = rec\<rparr>]\<rparr>"

definition start :: "observer \<Rightarrow> observer" where
  "start obs = obs\<lparr>status := Running\<rparr>"

definition stop :: "observer \<Rightarrow> observer" where
  "stop obs = obs\<lparr>status := Stopping\<rparr>"

definition join :: "observer \<Rightarrow> observer" where
  "join obs = obs\<lparr>status := Joined\<rparr>"

text \<open>The directory as a prefix of the paths below it.\<close>

definition dir_prefix :: "string \<Rightarrow> string" where
  "dir_prefix d = (if d \<noteq> [] \<and> last d = CHR ''/'' then d else d @ ''/'')"

text \<open>
  A path is in the scope of a watch when it lies below the watched directory: anywhere
  below it for a recursive watch, directly in it otherwise.
\<close>

definition in_scope :: "watch \<Rightarrow> string \<Rightarrow> bool" where
  "in_scope wt p =
     (let d = dir_prefix (watch_path wt) in
      take (length d) p = d \<and> length d < length p \<and>
      (recursive wt \<or> CHR ''/'' \<notin> set (drop (length d) p)))"

text \<open>
  The handler of a watch is called with an event. The watch is returned with the handler
  object as the call left it.
\<close>

definition serve :: "watch \<Rightarrow> event \<Rightarrow> world \<Rightarrow> watch \<times> error option \<times> world" where
  "serve wt ev w =
     (case on_any_event (handler wt) ev w of
        (h', r, w') \<Rightarrow> (wt\<lparr>handler := h'\<rparr>, r, w'))"

text \<open>
  The worker takes the report of the \<open>k\<close>-th watch for an event. A stopped or dead
  worker takes nothing, and a watch reports nothing outside its scope.
\<close>

definition deliver :: "observer \<Rightarrow> nat \<Rightarrow> event \<Rightarrow> world \<Rightarrow> observer \<times> world" where
  "deliver obs k ev w =
     (if status obs = Running \<and> k < length (watches obs) \<and>
         in_scope (watches obs ! k) (src_path ev) then
        (case serve (watches obs ! k) ev w of
           (wt, None, w') \<Rightarrow> (obs\<lparr>watches := (watches obs)[k := wt]\<rparr>, w')
         | (wt, Some err, w') \<Rightarrow>
             (obs\<lparr>watches := (watches obs)[k := wt], status := Crashed\<rparr>, w'))
      else (obs, w))"

section \<open>The watch loop\<close>

text \<open>
  \<^verbatim>\<open>
  def main():
      while 1:
          test_handler = ChangeHandler('.lua', run_tests)
          docs_handler = ChangeHandler('.lua', build_docs)

          observer = Observer()
          observer.schedule(test_handler, BASEDIR, recursive=True)
          observer.schedule(docs_handler, os.path.join(BASEDIR, 'src'), recursive=True)
          observer.start()

          try:
              while True:
                  time.sleep(1)
          except KeyboardInterrupt:
              observer.stop()

          observer.join()
  \<close>
  \<^verbatim>\<open>main\<close> never returns. It is a function of what happens while the main thread sleeps:
  the sleep returns (\<open>Tick\<close>), the sleep is interrupted (\<open>Interrupt\<close> is the
  \<^verbatim>\<open>KeyboardInterrupt\<close>), or the observer's worker takes the report of a watch for an
  event (\<open>Deliver\<close>, with the position of the watch among the registrations). The state
  after a finite run of such inputs is the state in which the main thread is asleep
  again. An interrupt that arrives outside the \<^verbatim>\<open>try\<close> block ends the process and is no
  input here. Both watched directories are taken to exist.

  Every object the loop creates has an identity, drawn from the counter \<open>fresh\<close>. The
  local variables \<^verbatim>\<open>test_handler\<close> and \<^verbatim>\<open>docs_handler\<close> hold identities; \<open>retired\<close> keeps
  the observers that were stopped and joined, newest first; \<open>steps\<close> is the sequence of
  constructor and method calls the main thread has made.
\<close>

datatype main_step =
    NewChangeHandler nat
  | NewObserver nat
  | Schedule nat nat
  | Start nat
  | Stop nat
  | Join nat

record main_state =
  the_world :: world
  fresh :: nat
  test_handler :: nat
  docs_handler :: nat
  observer :: observer
  retired :: "observer list"
  steps :: "main_step list"

datatype input = Tick | Interrupt | Deliver nat event

text \<open>One pass from the head of the outer loop to the first \<^verbatim>\<open>time.sleep\<close>.\<close>

definition loop_head ::
  "env \<Rightarrow> world \<Rightarrow> nat \<Rightarrow> observer list \<Rightarrow> main_step list \<Rightarrow> main_state" where
  "loop_head e w n old log =
     (let t = n; d = n + 1; b = n + 2;
          th = ChangeHandler_init (Str ''.lua'') (run_tests e);
          dh = ChangeHandler_init (Str ''.lua'') (build_docs e);
          obs0 = Observer b;
          obs1 = schedule obs0 t th (BASEDIR e) True;
          obs2 = schedule obs1 d dh (path_join (BASEDIR e) ''src'') True;
          obs3 = start obs2
      in \<lparr>the_world = w, fresh = n + 3, test_handler = t, docs_handler = d,
          observer = obs3, retired = old,
          steps = log @ [NewChangeHandler t, NewChangeHandler d, NewObserver b,
                         Schedule b t, Schedule b d, Start b]\<rparr>)"

fun step :: "env \<Rightarrow> main_state \<Rightarrow> input \<Rightarrow> main_state" where
  "step e s Tick = s"
| "step e s Interrupt =
     (let obs = join (stop (observer s)) in
      loop_head e (the_world s) (fresh s) (obs # retired s)
        (steps s @ [Stop (observer_id obs), Join (observer_id obs)]))"
| "step e s (Deliver k ev) =
     (case deliver (observer s) k ev (the_world s) of
        (obs, w) \<Rightarrow> s\<lparr>observer := obs, the_world := w\<rparr>)"

definition main :: "env \<Rightarrow> world \<Rightarrow> input list \<Rightarrow> main_state" where
  "main e w0 ins = foldl (step e) (loop_head e w0 0 [] []) ins"

text \<open>The handler objects that the running observer holds.\<close>

definition live_handlers :: "main_state \<Rightarrow> nat list" where
  "live_handlers s = map handler_id (watches (observer s))"

definition is_test_run :: "proc_call \<Rightarrow> bool" where
  "is_test_run c = (args c = ''busted'')"

definition is_doc_build :: "proc_call \<Rightarrow> bool" where
  "is_doc_build c = (args c = ''ldoc.lua src'')"

section \<open>Auxiliary definitions for the properties\<close>

text \<open>\<^verbatim>\<open>c.isdigit()\<close> for one byte.\<close>

definition isdigit_char :: "char \<Rightarrow> bool" where
  "isdigit_char c = (c \<in> set ''0123456789'')"

text \<open>The shape \<^verbatim>\<open>YYYY/MM/DD HH:MM:SS\<close>: nineteen characters, digits but for the five marks.\<close>

definition timestamp_shape :: "string \<Rightarrow> bool" where
  "timestamp_shape s =
     (length s = 19 \<and>
      list_all (\<lambda>i. isdigit_char (s ! i)) [0, 1, 2, 3, 5, 6, 8, 9, 11, 12, 14, 15, 17, 18] \<and>
      s ! 4 = CHR ''/'' \<and> s ! 7 = CHR ''/'' \<and> s ! 10 = CHR '' '' \<and>
      s ! 13 = CHR '':'' \<and> s ! 16 = CHR '':'')"

text \<open>
  A concrete environment: the project lives in \<^verbatim>\<open>/proj\<close>, the clock stands still, and every
  external command exits with the given status.
\<close>

definition example_env :: "int \<Rightarrow> env" where
  "example_env st =
     \<lparr>BASEDIR = ''/proj'',
      clock = (\<lambda>w. \<lparr>year = 2012, month = 3, day = 9, hour = 7, minute = 45, second = 0\<rparr>),
      exec = (\<lambda>c w. Exited st)\<rparr>"

text \<open>A process that has printed nothing and run nothing yet.\<close>

definition empty_world :: world where
  "empty_world = \<lparr>stdout = [], stderr = [], cwd = ''/'', procs = []\<rparr>"

text \<open>The event for a change to a file, and for a change to a directory.\<close>

definition file_event :: "string \<Rightarrow> event" where
  "file_event p = \<lparr>src_path = p, is_directory = False\<rparr>"

definition dir_event :: "string \<Rightarrow> event" where
  "dir_event p = \<lparr>src_path = p, is_directory = True\<rparr>"

text \<open>
  The world after \<^verbatim>\<open>run_tests\<close> when the command could be started: banner on standard
  error, both separators on standard output, the working directory moved, one call made.
\<close>

definition tests_world :: "env \<Rightarrow> world \<Rightarrow> world" where
  "tests_world e w =
     w\<lparr>stderr := stderr w @ [''Running unit tests at '' @ now e w],
       stdout := stdout w @ [separator, separator],
       cwd := BASEDIR e,
       procs := procs w @ [\<lparr>args = ''busted'', shell = False\<rparr>]\<rparr>"

text \<open>The same for \<^verbatim>\<open>build_docs\<close>.\<close>

definition docs_world :: "env \<Rightarrow> world \<Rightarrow> world" where
  "docs_world e w =
     w\<lparr>stderr := stderr w @ [''Building docs at '' @ now e w],
       stdout := stdout w @ [separator, separator],
       cwd := BASEDIR e,
       procs := procs w @ [\<lparr>args = ''ldoc.lua src'', shell = True\<rparr>]\<rparr>"

text \<open>
  The two registrations of one pass of the outer loop, for the handler identities
  \<open>n\<close> and \<open>n + 1\<close>.
\<close>

definition cycle_watches :: "env \<Rightarrow> nat \<Rightarrow> watch list" where
  "cycle_watches e n =
     [\<lparr>handler_id = n, handler = ChangeHandler_init (Str ''.lua'') (run_tests e),
       watch_path = BASEDIR e, recursive = True\<rparr>,
      \<lparr>handler_id = n + 1, handler = ChangeHandler_init (Str ''.lua'') (build_docs e),
       watch_path = path_join (BASEDIR e) ''src'', recursive = True\<rparr>]"

text \<open>The handler objects held by a list of observers.\<close>

definition handlers_of :: "observer list \<Rightarrow> nat list" where
  "handlers_of obss = concat (map (\<lambda>obs. map handler_id (watches obs)) obss)"

definition retired_handlers :: "main_state \<Rightarrow> nat list" where
  "retired_handlers s = handlers_of (retired s)"

text \<open>
  What holds of the state of \<^verbatim>\<open>main\<close> whenever the main thread sleeps: the three newest
  objects are the two handlers and the observer of this pass, the observer holds exactly
  the two registrations of this pass and is running (or its worker has died), and every
  retired observer is joined and holds only older handlers.
\<close>

definition main_invariant :: "env \<Rightarrow> main_state \<Rightarrow> bool" where
  "main_invariant e s =
     (3 \<le> fresh s \<and> test_handler s = fresh s - 3 \<and> docs_handler s = fresh s - 2 \<and>
      observer_id (observer s) = fresh s - 1 \<and>
      watches (observer s) = cycle_watches e (fresh s - 3) \<and>
      (status (observer s) = Running \<or> status (observer s) = Crashed) \<and>
      list_all (\<lambda>i. i < fresh s - 3) (retired_handlers s) \<and>
      list_all (\<lambda>obs. status obs = Joined) (retired s))"

text \<open>The path of \<^verbatim>\<open>src/foo.lua\<close> below the project directory.\<close>

definition foo_lua :: "env \<Rightarrow> string" where
  "foo_lua e = path_join (path_join (BASEDIR e) ''src'') ''foo.lua''"

text \<open>
  The creation of that file as the observer's worker sees it: one delivery of the file
  event for each report, \<open>ks\<close> naming the reporting watches in the order in which the
  worker takes the reports (\<open>0\<close> is the watch of the project directory, with the test
  handler; \<open>1\<close> is the watch of \<^verbatim>\<open>src\<close>, with the docs handler).
\<close>

definition foo_lua_reports :: "env \<Rightarrow> nat list \<Rightarrow> input list" where
  "foo_lua_reports e ks = map (\<lambda>k. Deliver k (file_event (foo_lua e))) ks"

text \<open>The world after the handler of the \<open>k\<close>-th watch has run its command.\<close>

definition report_world :: "env \<Rightarrow> nat \<Rightarrow> world \<Rightarrow> world" where
  "report_world e k w =
     (if k = 0 then tests_world e w else if k = 1 then docs_world e w else w)"

section \<open>Properties of the extension classifier\<close>

lemma rfind_notin: "c \<notin> set xs \<Longrightarrow> rfind c xs = -1"
  by (induction xs) (auto simp: Let_def)

lemma rfind_append_notin: "c \<notin> set ys \<Longrightarrow> rfind c (xs @ ys) = rfind c xs"
  by (induction xs) (auto simp: Let_def rfind_notin)

lemma rfind_last_occurrence: "c \<notin> set ys \<Longrightarrow> rfind c (xs @ c # ys) = int (length xs)"
  by (induction xs) (auto simp: Let_def rfind_notin)

lemma rfind_lt_length: "rfind c xs < int (length xs)"
  by (induction xs) (auto simp: Let_def)

lemma leading_dots_only_iff:
  "leading_dots_only p e i d = (\<forall>k. i \<le> k \<and> k < d \<longrightarrow> p ! nat k = e)"
proof (induction p e i d rule: leading_dots_only.induct)
  case (1 p e i d)
  show ?case
  proof (cases "i < d")
    case False
    then have "leading_dots_only p e i d" by (subst leading_dots_only.simps) simp
    moreover have "\<forall>k. i \<le> k \<and> k < d \<longrightarrow> p ! nat k = e" using False by linarith
    ultimately show ?thesis by blast
  next
    case lt: True
    show ?thesis
    proof (cases "p ! nat i = e")
      case False
      then have "\<not> leading_dots_only p e i d"
        using lt by (subst leading_dots_only.simps) simp
      moreover have "\<not> (\<forall>k. i \<le> k \<and> k < d \<longrightarrow> p ! nat k = e)"
        using lt False by (meson order_refl)
      ultimately show ?thesis by blast
    next
      case True
      have "leading_dots_only p e i d = leading_dots_only p e (i + 1) d"
        using lt True by (subst leading_dots_only.simps) simp
      also have "\<dots> = (\<forall>k. i + 1 \<le> k \<and> k < d \<longrightarrow> p ! nat k = e)"
        using "1.IH" lt True by simp
      also have "\<dots> = (\<forall>k. i \<le> k \<and> k < d \<longrightarrow> p ! nat k = e)"
      proof (intro iffI allI impI)
        fix k assume h: "\<forall>k. i + 1 \<le> k \<and> k < d \<longrightarrow> p ! nat k = e" and k: "i \<le> k \<and> k < d"
        show "p ! nat k = e"
        proof (cases "k = i")
          case True
          then show ?thesis using \<open>p ! nat i = e\<close> by simp
        next
          case False
          with k have "i + 1 \<le> k \<and> k < d" by linarith
          with h show ?thesis by blast
        qed
      next
        fix k assume h: "\<forall>k. i \<le> k \<and> k < d \<longrightarrow> p ! nat k = e" and k: "i + 1 \<le> k \<and> k < d"
        then have "i \<le> k \<and> k < d" by linarith
        with h show "p ! nat k = e" by blast
      qed
      finally show ?thesis .
    qed
  qed
qed

lemma leading_dots_only_segment:
  "leading_dots_only (dir @ stem @ rest) e (int (length dir)) (int (length dir + length stem))
     = list_all (\<lambda>c. c = e) stem"
proof -
  have "(\<forall>k. int (length dir) \<le> k \<and> k < int (length dir + length stem) \<longrightarrow> (dir @ stem @ rest) ! nat k = e)
        = (\<forall>j < length stem. stem ! j = e)"
  proof
    assume a: "\<forall>k. int (length dir) \<le> k \<and> k < int (length dir + length stem) \<longrightarrow> (dir @ stem @ rest) ! nat k = e"
    show "\<forall>j < length stem. stem ! j = e"
    proof (intro allI impI)
      fix j assume j: "j < length stem"
      have "int (length dir) \<le> int (length dir + j) \<and> int (length dir + j) < int (length dir + length stem)"
        using j by simp
      with a have "(dir @ stem @ rest) ! nat (int (length dir + j)) = e"
        by blast
      then have "(dir @ stem @ rest) ! (length dir + j) = e"
        by (simp only: nat_int)
      then show "stem ! j = e" using j by (simp add: nth_append)
    qed
  next
    assume a: "\<forall>j < length stem. stem ! j = e"
    show "\<forall>k. int (length dir) \<le> k \<and> k < int (length dir + length stem) \<longrightarrow> (dir @ stem @ rest) ! nat k = e"
    proof (intro allI impI)
      fix k assume k: "int (length dir) \<le> k \<and> k < int (length dir + length stem)"
      then have "nat k - length dir < length stem" "length dir \<le> nat k" by auto
      then show "(dir @ stem @ rest) ! nat k = e" using a by (simp add: nth_append)
    qed
  qed
  then show ?thesis
    by (simp add: leading_dots_only_iff list_all_length)
qed


lemma rfind_sep_dir:
  assumes "CHR ''/'' \<notin> set seg" and "dir = [] \<or> last dir = CHR ''/''"
  shows "rfind (CHR ''/'') (dir @ seg) + 1 = int (length dir)"
proof (cases "dir = []")
  case True
  then show ?thesis using assms by (simp add: rfind_notin)
next
  case False
  with assms obtain d where d: "dir = d @ [CHR ''/'']"
    by (metis append_butlast_last_id)
  then have "rfind (CHR ''/'') (dir @ seg) = int (length d)"
    using rfind_last_occurrence [OF assms(1), of d] by simp
  then show ?thesis using d by simp
qed

lemma splitext_with_dot:
  assumes "CHR ''/'' \<notin> set stem" and "CHR ''/'' \<notin> set e" and "CHR ''.'' \<notin> set e"
    and "dir = [] \<or> last dir = CHR ''/''"
  shows "splitext (dir @ stem @ CHR ''.'' # e) =
           (if list_all (\<lambda>c. c = CHR ''.'') stem then (dir @ stem @ CHR ''.'' # e, [])
            else (dir @ stem, CHR ''.'' # e))"
proof -
  let ?p = "dir @ stem @ CHR ''.'' # e"
  have sep: "rfind (CHR ''/'') ?p + 1 = int (length dir)"
    using rfind_sep_dir [of "stem @ CHR ''.'' # e" dir] assms by simp
  have dot: "rfind (CHR ''.'') ?p = int (length dir + length stem)"
    using rfind_last_occurrence [OF assms(3), of "dir @ stem"] by simp
  have gt: "rfind (CHR ''.'') ?p > rfind (CHR ''/'') ?p"
    using sep dot by linarith
  have loop: "leading_dots_only ?p (CHR ''.'') (rfind (CHR ''/'') ?p + 1) (rfind (CHR ''.'') ?p)
                = list_all (\<lambda>c. c = CHR ''.'') stem"
    unfolding sep dot by (rule leading_dots_only_segment)
  show ?thesis
    unfolding splitext_def splitext_generic_def Let_def
    using gt loop dot by simp
qed

lemma splitext_without_dot:
  assumes "CHR ''/'' \<notin> set seg" and "CHR ''.'' \<notin> set seg"
    and "dir = [] \<or> last dir = CHR ''/''"
  shows "splitext (dir @ seg) = (dir @ seg, [])"
proof -
  have sep: "rfind (CHR ''/'') (dir @ seg) + 1 = int (length dir)"
    using rfind_sep_dir assms by simp
  have "rfind (CHR ''.'') (dir @ seg) = rfind (CHR ''.'') dir"
    using assms(2) by (rule rfind_append_notin)
  then have "rfind (CHR ''.'') (dir @ seg) < int (length dir)"
    by (simp add: rfind_lt_length)
  with sep have "\<not> rfind (CHR ''.'') (dir @ seg) > rfind (CHR ''/'') (dir @ seg)"
    by linarith
  then show ?thesis
    unfolding splitext_def splitext_generic_def Let_def by simp
qed

lemma path_decompose: "p = dir_part p @ spec_final_segment p"
  unfolding dir_part_def spec_final_segment_def
  by (metis rev_append rev_rev_ident takeWhile_dropWhile_id)

lemma final_segment_no_sep: "CHR ''/'' \<notin> set (spec_final_segment p)"
  unfolding spec_final_segment_def
  by (auto dest: set_takeWhileD)

lemma dir_part_ends: "dir_part p = [] \<or> last (dir_part p) = CHR ''/''"
proof (cases "dropWhile (\<lambda>c. c \<noteq> CHR ''/'') (rev p) = []")
  case True
  then show ?thesis by (simp add: dir_part_def)
next
  case False
  then have "hd (dropWhile (\<lambda>c. c \<noteq> CHR ''/'') (rev p)) = CHR ''/''"
    using hd_dropWhile [of "\<lambda>c. c \<noteq> CHR ''/''" "rev p"] by simp
  with False show ?thesis by (simp add: dir_part_def last_rev)
qed

lemma segment_decompose:
  assumes "CHR ''.'' \<in> set seg"
  shows "seg = stem_before_last_dot seg @ spec_last_dot_suffix seg"
proof -
  let ?P = "\<lambda>c. c \<noteq> CHR ''.''"
  have ne: "dropWhile ?P (rev seg) \<noteq> []"
    using assms by (simp add: dropWhile_eq_Nil_conv) 
  then have "hd (dropWhile ?P (rev seg)) = CHR ''.''"
    using hd_dropWhile [of ?P "rev seg"] by simp
  with ne have dw: "dropWhile ?P (rev seg) = CHR ''.'' # tl (dropWhile ?P (rev seg))"
    by (metis list.collapse)
  have "rev seg = takeWhile ?P (rev seg) @ dropWhile ?P (rev seg)" by simp
  then have "rev seg = takeWhile ?P (rev seg) @ CHR ''.'' # tl (dropWhile ?P (rev seg))"
    using dw by metis
  then have "seg = rev (takeWhile ?P (rev seg) @ CHR ''.'' # tl (dropWhile ?P (rev seg)))"
    by (metis rev_rev_ident)
  then show ?thesis
    by (simp add: stem_before_last_dot_def spec_last_dot_suffix_def)
qed

lemma last_dot_suffix_tail_no_dot:
  "CHR ''.'' \<notin> set (tl (spec_last_dot_suffix seg))"
  by (auto simp: spec_last_dot_suffix_def dest: set_takeWhileD)

lemma getext_refines:
  "getext p = (if only_dots_before_last_dot (spec_final_segment p) then []
               else spec_classify p)"
proof (cases "CHR ''.'' \<in> set (spec_final_segment p)")
  case False
  have "splitext (dir_part p @ spec_final_segment p) = (dir_part p @ spec_final_segment p, [])"
    using final_segment_no_sep False dir_part_ends by (rule splitext_without_dot)
  then have "getext p = []"
    using path_decompose [of p] by (simp add: getext_def lower_def)
  moreover have "spec_classify p = []" using False by (simp add: spec_classify_def)
  ultimately show ?thesis by simp
next
  case True
  let ?seg = "spec_final_segment p"
  let ?stem = "stem_before_last_dot ?seg"
  let ?e = "rev (takeWhile (\<lambda>c. c \<noteq> CHR ''.'') (rev ?seg))"
  have seg: "?seg = ?stem @ CHR ''.'' # ?e"
    using segment_decompose [OF True] by (simp add: spec_last_dot_suffix_def)
  have nosep: "CHR ''/'' \<notin> set ?stem" "CHR ''/'' \<notin> set ?e"
    using final_segment_no_sep [of p] seg
    by (metis Un_iff set_append, metis Un_iff list.set_intros(2) set_append)
  have nodot: "CHR ''.'' \<notin> set ?e"
    by (auto dest: set_takeWhileD)
  have "splitext (dir_part p @ ?stem @ CHR ''.'' # ?e) =
           (if list_all (\<lambda>c. c = CHR ''.'') ?stem then (dir_part p @ ?stem @ CHR ''.'' # ?e, [])
            else (dir_part p @ ?stem, CHR ''.'' # ?e))"
    using nosep nodot dir_part_ends by (rule splitext_with_dot)
  moreover have "p = dir_part p @ ?stem @ CHR ''.'' # ?e"
    using path_decompose [of p] seg by simp
  ultimately have "splitext p =
           (if list_all (\<lambda>c. c = CHR ''.'') ?stem then (p, [])
            else (dir_part p @ ?stem, CHR ''.'' # ?e))"
    by simp
  then show ?thesis
    using True
    by (simp add: getext_def only_dots_before_last_dot_def spec_classify_def
        spec_last_dot_suffix_def lower_def)
qed

text \<open>
  Claim C2, as the code has it. \<open>getext\<close> is a total function on strings with no raising
  branch. It returns the lowercased last dot-delimited suffix of the final path segment,
  leading dot included, as the specification words it, except where nothing but dots
  (or nothing at all) stands before the last dot of that segment: there, and where the
  segment has no dot, it returns the empty string. \<open>README\<close> has no extension and
  \<open>a/b/c.LUA\<close> has the extension \<open>.lua\<close>.
\<close>

theorem getext_classifies:
  "getext p = (if only_dots_before_last_dot (spec_final_segment p) then []
               else spec_classify p)
   \<and> getext ''README'' = [] \<and> getext ''a/b/c.LUA'' = ''.lua''"
proof -
  have "getext ''README'' = []" by code_simp
  moreover have "getext ''a/b/c.LUA'' = ''.lua''" by code_simp
  ultimately show ?thesis using getext_refines [of p] by simp
qed

text \<open>
  Claim C2 as it is written fails on a name that begins with its only dot: the last
  dot-delimited suffix of \<open>.bashrc\<close> is \<open>.bashrc\<close>, and \<open>getext\<close> returns the empty string.
\<close>

theorem getext_spec_words_counterexample:
  "spec_classify ''.bashrc'' = ''.bashrc'' \<and> getext ''.bashrc'' = []"
  by code_simp

text \<open>
  Claim C10: for a path whose final segment begins with a dot and has no other dot,
  \<open>getext\<close> returns the empty string.
\<close>

theorem getext_dotfile:
  assumes "CHR ''/'' \<notin> set name" and "CHR ''.'' \<notin> set name"
    and "dir = [] \<or> last dir = CHR ''/''"
  shows "getext (dir @ CHR ''.'' # name) = []"
proof -
  have "splitext (dir @ [] @ CHR ''.'' # name) = (dir @ [] @ CHR ''.'' # name, [])"
    using splitext_with_dot [of "[]" name dir] assms by simp
  then show ?thesis by (simp add: getext_def lower_def)
qed

theorem getext_dotfile_witness:
  "CHR ''/'' \<notin> set ''gitignore'' \<and> CHR ''.'' \<notin> set ''gitignore''
   \<and> last ''a/'' = CHR ''/'' \<and> getext ''a/.gitignore'' = []"
  using getext_dotfile [of "''gitignore''" "''a/''"] by simp

lemma lower_char_not_upper: "\<not> is_ascii_upper (lower_char c)"
proof (cases "map_of (zip ascii_uppercase ascii_lowercase) c")
  case None
  then have "c \<notin> fst ` set (zip ascii_uppercase ascii_lowercase)"
    by (rule iffD1 [OF map_of_eq_None_iff])
  moreover have "length ascii_uppercase = length ascii_lowercase"
    by (simp add: ascii_uppercase_def ascii_lowercase_def)
  ultimately have "c \<notin> set ascii_uppercase"
    by (metis map_fst_zip set_map)
  with None show ?thesis by (simp add: lower_char_def is_ascii_upper_def)
next
  case (Some d)
  then have "d \<in> set ascii_lowercase"
    by (meson map_of_SomeD set_zip_rightD)
  then have "d \<notin> set ascii_uppercase"
    by (auto simp: ascii_uppercase_def ascii_lowercase_def)
  with Some show ?thesis by (simp add: lower_char_def is_ascii_upper_def)
qed

lemma getext_no_upper: "\<not> list_ex is_ascii_upper (getext p)"
  by (simp add: getext_def lower_def list_ex_iff lower_char_not_upper)

text \<open>
  Claim C9, as the code has it: a handler whose watched extensions all hold an ASCII
  uppercase letter (\<^verbatim>\<open>A\<close>..\<^verbatim>\<open>Z\<close>) never calls its action, whatever the event: the
  handler and the world are returned unchanged and nothing is raised.
\<close>

theorem uppercase_extension_never_matches:
  assumes "list_all (list_ex is_ascii_upper) (exts h)"
  shows "on_any_event h ev w = (h, None, w)"
proof -
  have "getext (src_path ev) \<notin> set (exts h)"
  proof
    assume "getext (src_path ev) \<in> set (exts h)"
    with assms have "list_ex is_ascii_upper (getext (src_path ev))"
      by (simp add: list_all_iff)
    then show False using getext_no_upper by blast
  qed
  then show ?thesis by (simp add: on_any_event_def)
qed

theorem uppercase_extension_never_matches_witness:
  "list_all (list_ex is_ascii_upper) (exts (ChangeHandler_init (Str ''.LUA'') record_call))
   \<and> getext ''Foo.LUA'' = ''.lua''
   \<and> on_any_event (ChangeHandler_init (Str ''.LUA'') record_call)
        \<lparr>src_path = ''Foo.LUA'', is_directory = False\<rparr> []
      = (ChangeHandler_init (Str ''.LUA'') record_call, None, [])"
proof -
  have h: "list_all (list_ex is_ascii_upper) (exts (ChangeHandler_init (Str ''.LUA'') record_call))"
    by (simp add: ChangeHandler_init_def is_ascii_upper_def ascii_uppercase_def)
  have g: "getext ''Foo.LUA'' = ''.lua''" by code_simp
  show ?thesis
    using h g uppercase_extension_never_matches [OF h] by simp
qed

text \<open>
  Claim C9 as it is written fails for an uppercase letter that \<^verbatim>\<open>str.lower\<close> leaves
  unchanged: the extension made of a dot and U+2110 holds an uppercase letter, and the
  handler built from it calls its action for a file whose name ends in that extension.
\<close>

theorem uppercase_extension_matches_counterexample:
  "has_uppercase_letter (''.'' @ script_capital_I) \<and>
   lower (''.'' @ script_capital_I) = ''.'' @ script_capital_I \<and>
   exts (ChangeHandler_init (Str (''.'' @ script_capital_I)) record_call)
     = [''.'' @ script_capital_I] \<and>
   snd (on_any_event (ChangeHandler_init (Str (''.'' @ script_capital_I)) record_call)
          \<lparr>src_path = ''a.'' @ script_capital_I, is_directory = False\<rparr> [])
     = (None, [\<lparr>src_path = ''a.'' @ script_capital_I, is_directory = False\<rparr>])"
proof -
  have g: "getext (''a.'' @ script_capital_I) = ''.'' @ script_capital_I"
    unfolding script_capital_I_def by code_simp
  have l: "lower (''.'' @ script_capital_I) = ''.'' @ script_capital_I"
    unfolding script_capital_I_def by code_simp
  have u: "has_uppercase_letter (''.'' @ script_capital_I)"
    by (simp add: script_capital_I_def)
  show ?thesis
    using g l u
    by (simp add: on_any_event_def ChangeHandler_init_def record_call_def)
qed

section \<open>Properties of the command runners and the change handler\<close>

lemma run_tests_exited:
  assumes "\<forall>c w. exec e c w \<noteq> SpawnFailed"
  shows "run_tests e ev w = (None, tests_world e w)"
proof -
  let ?w3 = "chdir (BASEDIR e) (print_stdout separator
               (print_stderr (''Running unit tests at '' @ now e w) w))"
  obtain n where "exec e \<lparr>args = ''busted'', shell = False\<rparr> ?w3 = Exited n"
    using assms by (meson proc_outcome.exhaust)
  then show ?thesis
    by (simp add: run_tests_def subprocess_call_def tests_world_def
        print_stdout_def print_stderr_def chdir_def)
qed

lemma build_docs_exited:
  assumes "\<forall>c w. exec e c w \<noteq> SpawnFailed"
  shows "build_docs e ev w = (None, docs_world e w)"
proof -
  let ?w3 = "chdir (BASEDIR e) (print_stdout separator
               (print_stderr (''Building docs at '' @ now e w) w))"
  obtain n where "exec e \<lparr>args = ''ldoc.lua src'', shell = True\<rparr> ?w3 = Exited n"
    using assms by (meson proc_outcome.exhaust)
  then show ?thesis
    by (simp add: build_docs_def subprocess_call_def docs_world_def
        print_stdout_def print_stderr_def chdir_def)
qed

lemma run_tests_procs:
  "procs (snd (run_tests e ev w)) = procs w @ [\<lparr>args = ''busted'', shell = False\<rparr>]"
  by (simp add: run_tests_def subprocess_call_def print_stdout_def print_stderr_def
      chdir_def Let_def split: proc_outcome.split)

lemma build_docs_procs:
  "procs (snd (build_docs e ev w)) = procs w @ [\<lparr>args = ''ldoc.lua src'', shell = True\<rparr>]"
  by (simp add: build_docs_def subprocess_call_def print_stdout_def print_stderr_def
      chdir_def Let_def split: proc_outcome.split)

lemma run_tests_stderr:
  "stderr (snd (run_tests e ev w)) = stderr w @ [''Running unit tests at '' @ now e w]"
  by (simp add: run_tests_def subprocess_call_def print_stdout_def print_stderr_def
      chdir_def Let_def split: proc_outcome.split)

lemma build_docs_stderr:
  "stderr (snd (build_docs e ev w)) = stderr w @ [''Building docs at '' @ now e w]"
  by (simp add: build_docs_def subprocess_call_def print_stdout_def print_stderr_def
      chdir_def Let_def split: proc_outcome.split)

lemma digit_char_isdigit: "isdigit_char (digit_char n)"
proof -
  have "n mod 10 < length ''0123456789''" by simp
  then have "''0123456789'' ! (n mod 10) \<in> set ''0123456789''"
    by (rule nth_mem)
  then show ?thesis by (simp only: digit_char_def isdigit_char_def)
qed

lemma now_shape: "timestamp_shape (now e w)"
  by (simp add: now_def directive_def pad2_def pad4_def timestamp_shape_def
      digit_char_isdigit)

text \<open>
  Claim C1: for every handler and every event, a directory event calls nothing; a file
  event whose classified extension is among the watched extensions calls the bound action
  once, with that event (the result of \<open>on_any_event\<close> is the result of that one call, and
  a recording action has recorded exactly that event); any other file event calls nothing
  and raises nothing. A handler built from the sequence \<open>.lua\<close>, \<open>.md\<close> calls its action
  for file events of these two extensions and for no other event.
\<close>

theorem on_any_event_dispatch:
  "(is_directory ev \<longrightarrow> on_any_event h ev w = (h, None, w)) \<and>
   (\<not> is_directory ev \<and> getext (src_path ev) \<in> set (exts h) \<longrightarrow>
      on_any_event h ev w = (h, func h ev w)) \<and>
   (\<not> is_directory ev \<and> getext (src_path ev) \<notin> set (exts h) \<longrightarrow>
      on_any_event h ev w = (h, None, w)) \<and>
   (\<not> is_directory ev \<and> getext (src_path ev) \<in> set xs \<longrightarrow>
      snd (on_any_event (ChangeHandler_init (Seq xs) record_call) ev log) = (None, log @ [ev])) \<and>
   snd (on_any_event (ChangeHandler_init (Seq [''.lua'', ''.md'']) f) ev w) =
     (if \<not> is_directory ev \<and>
         (getext (src_path ev) = ''.lua'' \<or> getext (src_path ev) = ''.md'')
      then f ev w else (None, w))"
  by (auto simp: on_any_event_def ChangeHandler_init_def record_call_def)

text \<open>
  Claim C1 at concrete events: a directory named \<open>src/pkg.lua\<close>, the files
  \<open>a/b/c.LUA\<close> and \<open>README.md\<close>, and the file \<open>mon.py\<close>.
\<close>

theorem on_any_event_dispatch_witness:
  "snd (on_any_event (ChangeHandler_init (Seq [''.lua'', ''.md'']) record_call)
          (dir_event ''src/pkg.lua'') []) = (None, []) \<and>
   snd (on_any_event (ChangeHandler_init (Seq [''.lua'', ''.md'']) record_call)
          (file_event ''a/b/c.LUA'') []) = (None, [file_event ''a/b/c.LUA'']) \<and>
   snd (on_any_event (ChangeHandler_init (Seq [''.lua'', ''.md'']) record_call)
          (file_event ''README.md'') []) = (None, [file_event ''README.md'']) \<and>
   snd (on_any_event (ChangeHandler_init (Seq [''.lua'', ''.md'']) record_call)
          (file_event ''mon.py'') []) = (None, [])"
proof -
  have g: "getext ''src/pkg.lua'' = ''.lua''" "getext ''a/b/c.LUA'' = ''.lua''"
    "getext ''README.md'' = ''.md''" "getext ''mon.py'' = ''.py''"
    by code_simp+
  let ?h = "ChangeHandler_init (Seq [''.lua'', ''.md'']) record_call :: (event list) ChangeHandler"
  show ?thesis
    using on_any_event_dispatch [of "dir_event ''src/pkg.lua''" ?h "[]" "[''.lua'', ''.md'']" "[]" record_call]
      on_any_event_dispatch [of "file_event ''a/b/c.LUA''" ?h "[]" "[''.lua'', ''.md'']" "[]" record_call]
      on_any_event_dispatch [of "file_event ''README.md''" ?h "[]" "[''.lua'', ''.md'']" "[]" record_call]
      on_any_event_dispatch [of "file_event ''mon.py''" ?h "[]" "[''.lua'', ''.md'']" "[]" record_call]
    by (simp add: g file_event_def dir_event_def record_call_def)
qed

text \<open>
  Claim C4, as the code has it: each run of a command runner makes exactly one call of its
  fixed external command. \<open>build_docs\<close> runs \<open>ldoc.lua src\<close> through the shell;
  \<open>run_tests\<close> runs \<open>busted\<close> directly, not through the shell.
\<close>

theorem runners_external_command:
  "procs (snd (build_docs e ev w)) = procs w @ [\<lparr>args = ''ldoc.lua src'', shell = True\<rparr>] \<and>
   procs (snd (run_tests e ev w)) = procs w @ [\<lparr>args = ''busted'', shell = False\<rparr>]"
  by (simp add: run_tests_procs build_docs_procs)

text \<open>
  Claim C4 as it is written fails for the tests runner: its one call has the shell flag
  unset.
\<close>

theorem run_tests_shell_counterexample:
  "procs (snd (run_tests (example_env 0) (file_event ''/proj/spec/a_spec.lua'') empty_world))
     = [\<lparr>args = ''busted'', shell = False\<rparr>] \<and>
   \<not> list_all shell
        (procs (snd (run_tests (example_env 0) (file_event ''/proj/spec/a_spec.lua'') empty_world)))"
  by (simp add: run_tests_procs empty_world_def)

text \<open>
  Claim C5, as the code has it: the banner, the label followed by \<open>at\<close> and the time as
  \<open>YYYY/MM/DD HH:MM:SS\<close>, goes to standard error; the two separator lines of 79 dashes go
  to standard output (both of them when the command could be started).
\<close>

theorem runner_log_streams:
  "stderr (snd (run_tests e ev w)) = stderr w @ [''Running unit tests at '' @ now e w] \<and>
   stderr (snd (build_docs e ev w)) = stderr w @ [''Building docs at '' @ now e w] \<and>
   timestamp_shape (now e w) \<and>
   separator = replicate 79 (CHR ''-'') \<and>
   ((\<forall>c w. exec e c w \<noteq> SpawnFailed) \<longrightarrow>
      stdout (snd (run_tests e ev w)) = stdout w @ [separator, separator] \<and>
      stdout (snd (build_docs e ev w)) = stdout w @ [separator, separator])"
  by (simp add: run_tests_stderr build_docs_stderr now_shape separator_def
      run_tests_exited build_docs_exited tests_world_def docs_world_def)

section \<open>Properties of the watch loop\<close>

lemma on_any_event_self: "fst (on_any_event h ev w) = h"
  by (simp add: on_any_event_def)

lemma serve_watch: "fst (serve wt ev w) = wt"
proof -
  obtain h' r w' where o: "on_any_event (handler wt) ev w = (h', r, w')"
    by (metis prod_cases3)
  with on_any_event_self [of "handler wt" ev w] have "h' = handler wt" by simp
  with o show ?thesis by (simp add: serve_def)
qed

lemma deliver_observer:
  "watches (fst (deliver obs k ev w)) = watches obs \<and>
   observer_id (fst (deliver obs k ev w)) = observer_id obs \<and>
   (status (fst (deliver obs k ev w)) = status obs \<or>
    status (fst (deliver obs k ev w)) = Crashed)"
proof (cases "status obs = Running \<and> k < length (watches obs) \<and>
              in_scope (watches obs ! k) (src_path ev)")
  case False
  then have "deliver obs k ev w = (obs, w)" by (simp only: deliver_def if_False)
  then show ?thesis by simp
next
  case True
  obtain wt r w' where d: "serve (watches obs ! k) ev w = (wt, r, w')"
    by (metis prod_cases3)
  with serve_watch [of "watches obs ! k" ev w] have "wt = watches obs ! k" by simp
  then have "(watches obs)[k := wt] = watches obs" by simp
  with True d show ?thesis by (cases r) (simp_all add: deliver_def)
qed

lemma loop_head_fields:
  "fresh (loop_head e w n old log) = n + 3"
  "test_handler (loop_head e w n old log) = n"
  "docs_handler (loop_head e w n old log) = n + 1"
  "observer_id (observer (loop_head e w n old log)) = n + 2"
  "watches (observer (loop_head e w n old log)) = cycle_watches e n"
  "status (observer (loop_head e w n old log)) = Running"
  "retired (loop_head e w n old log) = old"
  "the_world (loop_head e w n old log) = w"
  "steps (loop_head e w n old log) =
     log @ [NewChangeHandler n, NewChangeHandler (n + 1), NewObserver (n + 2),
            Schedule (n + 2) n, Schedule (n + 2) (n + 1), Start (n + 2)]"
  by (simp_all add: loop_head_def Let_def Observer_def schedule_def start_def
      cycle_watches_def)

lemma handlers_of_Cons:
  "handlers_of (obs # obss) = map handler_id (watches obs) @ handlers_of obss"
  by (simp add: handlers_of_def)

lemma loop_head_invariant:
  assumes "list_all (\<lambda>i. i < n) (handlers_of old)"
    and "list_all (\<lambda>obs. status obs = Joined) old"
  shows "main_invariant e (loop_head e w n old log)"
  using assms by (simp add: main_invariant_def loop_head_fields retired_handlers_def)

lemma step_invariant:
  assumes "main_invariant e s"
  shows "main_invariant e (step e s i)"
proof (cases i)
  case Tick
  with assms show ?thesis by simp
next
  case Interrupt
  let ?obs = "join (stop (observer s))"
  have ids: "map handler_id (watches ?obs) = [fresh s - 3, fresh s - 3 + 1]"
    using assms by (simp add: main_invariant_def join_def stop_def cycle_watches_def)
  have old: "list_all (\<lambda>i. i < fresh s - 3) (handlers_of (retired s))"
    using assms by (simp add: main_invariant_def retired_handlers_def)
  have "3 \<le> fresh s" using assms by (simp add: main_invariant_def)
  moreover have "list_all (\<lambda>i. i < fresh s) (handlers_of (retired s))"
    using old by (auto simp: list_all_iff)
  ultimately have "list_all (\<lambda>i. i < fresh s) (handlers_of (?obs # retired s))"
    using ids by (simp add: handlers_of_Cons)
  moreover have "list_all (\<lambda>obs. status obs = Joined) (?obs # retired s)"
    using assms by (simp add: main_invariant_def join_def)
  ultimately have "main_invariant e (loop_head e (the_world s) (fresh s) (?obs # retired s)
      (steps s @ [Stop (observer_id ?obs), Join (observer_id ?obs)]))"
    by (rule loop_head_invariant)
  with Interrupt show ?thesis by (simp add: Let_def)
next
  case (Deliver k ev)
  obtain obs w where d: "deliver (observer s) k ev (the_world s) = (obs, w)"
    by (metis surj_pair)
  with deliver_observer [of "observer s" k ev "the_world s"]
  have "watches obs = watches (observer s)" "observer_id obs = observer_id (observer s)"
    "status obs = status (observer s) \<or> status obs = Crashed"
    by simp_all
  with assms Deliver d show ?thesis
    by (auto simp: main_invariant_def retired_handlers_def)
qed

lemma foldl_step_invariant:
  "main_invariant e s \<Longrightarrow> main_invariant e (foldl (step e) s ins)"
  by (induction ins arbitrary: s) (simp_all add: step_invariant)

lemma main_invariant_holds: "main_invariant e (main e w0 ins)"
  unfolding main_def
  by (rule foldl_step_invariant, rule loop_head_invariant) (simp_all add: handlers_of_def)

lemma main_snoc: "main e w0 (ins @ [i]) = step e (main e w0 ins) i"
  by (simp add: main_def)

lemma example_env_ok: "\<forall>c w. exec (example_env st) c w \<noteq> SpawnFailed"
  by (simp add: example_env_def)

lemma example_now: "now (example_env st) w = ''2012/03/09 07:45:00''"
  by (simp add: now_def example_env_def directive_def pad2_def pad4_def digit_char_def)

lemma run_tests_handler_no_error:
  assumes "\<forall>c w. exec e c w \<noteq> SpawnFailed"
  shows "fst (snd (on_any_event (ChangeHandler_init x (run_tests e)) ev w)) = None"
  by (cases x) (simp_all add: on_any_event_def ChangeHandler_init_def run_tests_exited [OF assms])

lemma build_docs_handler_no_error:
  assumes "\<forall>c w. exec e c w \<noteq> SpawnFailed"
  shows "fst (snd (on_any_event (ChangeHandler_init x (build_docs e)) ev w)) = None"
  by (cases x) (simp_all add: on_any_event_def ChangeHandler_init_def build_docs_exited [OF assms])

lemma cycle_watches_no_error:
  assumes "\<forall>c w. exec e c w \<noteq> SpawnFailed"
  shows "list_all (\<lambda>wt. \<forall>ev w. fst (snd (on_any_event (handler wt) ev w)) = None)
           (cycle_watches e n)"
  by (simp add: cycle_watches_def run_tests_handler_no_error [OF assms]
      build_docs_handler_no_error [OF assms])

lemma status_running_step:
  assumes ok: "\<forall>c w. exec e c w \<noteq> SpawnFailed"
    and inv: "main_invariant e s" and run: "status (observer s) = Running"
  shows "status (observer (step e s i)) = Running"
proof (cases i)
  case Tick
  with run show ?thesis by simp
next
  case Interrupt
  then show ?thesis by (simp add: Let_def loop_head_fields)
next
  case (Deliver k ev)
  let ?ws = "watches (observer s)"
  show ?thesis
  proof (cases "k < length ?ws \<and> in_scope (?ws ! k) (src_path ev)")
    case False
    then have "deliver (observer s) k ev (the_world s) = (observer s, the_world s)"
      by (auto simp: deliver_def)
    with Deliver run show ?thesis by simp
  next
    case True
    have "?ws = cycle_watches e (fresh s - 3)"
      using inv by (simp add: main_invariant_def)
    then have "list_all (\<lambda>wt. \<forall>ev w. fst (snd (on_any_event (handler wt) ev w)) = None) ?ws"
      using cycle_watches_no_error [OF ok] by simp
    with True have n: "fst (snd (on_any_event (handler (?ws ! k)) ev (the_world s))) = None"
      by (simp add: list_all_length)
    have "fst (snd (serve (?ws ! k) ev (the_world s))) = None"
      using n by (cases "on_any_event (handler (?ws ! k)) ev (the_world s)") (simp add: serve_def)
    then show ?thesis
      using Deliver run True
      by (cases "serve (?ws ! k) ev (the_world s)") (simp add: deliver_def)
  qed
qed

lemma status_running_foldl:
  assumes ok: "\<forall>c w. exec e c w \<noteq> SpawnFailed"
  shows "main_invariant e s \<Longrightarrow> status (observer s) = Running \<Longrightarrow>
         status (observer (foldl (step e) s ins)) = Running"
proof (induction ins arbitrary: s)
  case Nil
  then show ?case by simp
next
  case (Cons i ins)
  have "main_invariant e (step e s i)" using Cons.prems(1) by (rule step_invariant)
  moreover have "status (observer (step e s i)) = Running"
    using ok Cons.prems by (rule status_running_step)
  ultimately show ?case using Cons.IH by simp
qed

lemma main_status_running:
  assumes "\<forall>c w. exec e c w \<noteq> SpawnFailed"
  shows "status (observer (main e w0 ins)) = Running"
  unfolding main_def
  by (rule status_running_foldl [OF assms])
     (simp_all add: loop_head_invariant handlers_of_def loop_head_fields)

lemma now_cong: "clock e' = clock e \<Longrightarrow> now e' w = now e w"
  by (simp add: now_def)

lemma main_env_cong:
  assumes rt: "run_tests e' = run_tests e" and bd: "build_docs e' = build_docs e"
    and base: "BASEDIR e' = BASEDIR e"
  shows "main e' w0 ins = main e w0 ins"
proof -
  have lh: "loop_head e' w n old log = loop_head e w n old log" for w n old log
    unfolding loop_head_def rt bd base ..
  have st: "step e' s i = step e s i" for s i
    by (cases i) (simp_all only: step.simps lh)
  have "foldl (step e') s ins = foldl (step e) s ins" for s
    by (induction ins arbitrary: s) (simp_all only: foldl.simps st)
  then show ?thesis
    unfolding main_def lh .
qed

lemma runners_env_cong:
  assumes ok: "\<forall>c w. exec e c w \<noteq> SpawnFailed" and ok': "\<forall>c w. exec e' c w \<noteq> SpawnFailed"
    and base: "BASEDIR e' = BASEDIR e" and clk: "clock e' = clock e"
  shows "run_tests e' = run_tests e" and "build_docs e' = build_docs e"
proof -
  have n: "now e' w = now e w" for w using clk by (rule now_cong)
  have tw: "tests_world e' w = tests_world e w" for w
    unfolding tests_world_def n base ..
  have dw: "docs_world e' w = docs_world e w" for w
    unfolding docs_world_def n base ..
  have "run_tests e' ev w = run_tests e ev w" for ev w
    unfolding run_tests_exited [OF ok] run_tests_exited [OF ok'] tw ..
  then show "run_tests e' = run_tests e" by (intro ext)
  have "build_docs e' ev w = build_docs e ev w" for ev w
    unfolding build_docs_exited [OF ok] build_docs_exited [OF ok'] dw ..
  then show "build_docs e' = build_docs e" by (intro ext)
qed

text \<open>
  Claim C6: whenever the external commands can be started, whatever status they exit
  with, a runner raises nothing, has made its call exactly once and has printed the
  closing separator; the world it leaves does not depend on the status. Two environments
  that differ in the exit statuses only give the same runners and the same run of
  \<open>main\<close>, and the observer is still running after any inputs.
\<close>

theorem exit_status_discarded:
  assumes "\<forall>c w. exec e c w \<noteq> SpawnFailed" and "\<forall>c w. exec e' c w \<noteq> SpawnFailed"
    and "BASEDIR e' = BASEDIR e" and "clock e' = clock e"
  shows "run_tests e ev w = (None, tests_world e w) \<and>
         build_docs e ev w = (None, docs_world e w) \<and>
         procs (tests_world e w) = procs w @ [\<lparr>args = ''busted'', shell = False\<rparr>] \<and>
         procs (docs_world e w) = procs w @ [\<lparr>args = ''ldoc.lua src'', shell = True\<rparr>] \<and>
         stdout (tests_world e w) = stdout w @ [separator, separator] \<and>
         stdout (docs_world e w) = stdout w @ [separator, separator] \<and>
         run_tests e' ev w = run_tests e ev w \<and>
         build_docs e' ev w = build_docs e ev w \<and>
         main e' w0 ins = main e w0 ins \<and>
         status (observer (main e w0 ins)) = Running"
proof -
  note rt = runners_env_cong(1) [OF assms] and bd = runners_env_cong(2) [OF assms]
  have "run_tests e ev w = (None, tests_world e w)"
    using assms(1) by (rule run_tests_exited)
  moreover have "build_docs e ev w = (None, docs_world e w)"
    using assms(1) by (rule build_docs_exited)
  moreover have "run_tests e' ev w = run_tests e ev w" by (simp only: rt)
  moreover have "build_docs e' ev w = build_docs e ev w" by (simp only: bd)
  moreover have "main e' w0 ins = main e w0 ins"
    using rt bd assms(3) by (rule main_env_cong)
  moreover have "status (observer (main e w0 ins)) = Running"
    using assms(1) by (rule main_status_running)
  moreover have "procs (tests_world e w) = procs w @ [\<lparr>args = ''busted'', shell = False\<rparr>]"
    "procs (docs_world e w) = procs w @ [\<lparr>args = ''ldoc.lua src'', shell = True\<rparr>]"
    "stdout (tests_world e w) = stdout w @ [separator, separator]"
    "stdout (docs_world e w) = stdout w @ [separator, separator]"
    by (simp_all add: tests_world_def docs_world_def)
  ultimately show ?thesis by blast
qed

lemma lower_dot_lua: "lower ''.lua'' = ''.lua''"
  by code_simp

lemma src_dir_eq:
  assumes "b \<noteq> []"
  shows "path_join b ''src'' = dir_prefix b @ ''src''"
  using assms by (simp add: path_join_def dir_prefix_def)

lemma foo_lua_eq:
  assumes "BASEDIR e \<noteq> []"
  shows "foo_lua e = dir_prefix (BASEDIR e) @ ''src/foo.lua''"
  using assms by (simp add: foo_lua_def path_join_def dir_prefix_def)

lemma src_dir_prefix:
  assumes "b \<noteq> []"
  shows "dir_prefix (path_join b ''src'') = dir_prefix b @ ''src/''"
  using assms by (simp add: src_dir_eq) (simp add: dir_prefix_def)

lemma getext_foo_lua:
  assumes "BASEDIR e \<noteq> []"
  shows "getext (foo_lua e) = ''.lua''"
proof -
  let ?dir = "dir_prefix (BASEDIR e) @ ''src/''"
  have "splitext (?dir @ ''foo'' @ CHR ''.'' # ''lua'') =
          (if list_all (\<lambda>c. c = CHR ''.'') ''foo'' then (?dir @ ''foo'' @ CHR ''.'' # ''lua'', [])
           else (?dir @ ''foo'', CHR ''.'' # ''lua''))"
    by (rule splitext_with_dot) simp_all
  then have "snd (splitext (foo_lua e)) = ''.lua''"
    using assms by (simp add: foo_lua_eq)
  then show ?thesis by (simp add: getext_def lower_dot_lua)
qed

lemma foo_lua_in_scope:
  assumes "BASEDIR e \<noteq> []"
  shows "in_scope \<lparr>handler_id = i, handler = h, watch_path = BASEDIR e, recursive = True\<rparr>
           (foo_lua e)"
    and "in_scope \<lparr>handler_id = j, handler = h',
                   watch_path = path_join (BASEDIR e) ''src'', recursive = True\<rparr>
           (foo_lua e)"
  using assms by (simp_all add: in_scope_def Let_def foo_lua_eq src_dir_prefix)

lemma serve_foo_lua:
  assumes ok: "\<forall>c w. exec e c w \<noteq> SpawnFailed" and base: "BASEDIR e \<noteq> []"
  shows "serve (cycle_watches e n ! 0) (file_event (foo_lua e)) w =
           (cycle_watches e n ! 0, None, tests_world e w)"
    and "serve (cycle_watches e n ! Suc 0) (file_event (foo_lua e)) w =
           (cycle_watches e n ! Suc 0, None, docs_world e w)"
  by (simp_all add: serve_def cycle_watches_def on_any_event_def ChangeHandler_init_def
      file_event_def getext_foo_lua [OF base] run_tests_exited [OF ok]
      build_docs_exited [OF ok])

lemma cycle_watches_in_scope:
  assumes "BASEDIR e \<noteq> []"
  shows "in_scope (cycle_watches e n ! 0) (foo_lua e)"
    and "in_scope (cycle_watches e n ! Suc 0) (foo_lua e)"
  by (simp_all add: cycle_watches_def foo_lua_in_scope [OF assms])

lemma deliver_foo_lua:
  assumes ok: "\<forall>c w. exec e c w \<noteq> SpawnFailed" and base: "BASEDIR e \<noteq> []"
    and ws: "watches obs = cycle_watches e n" and run: "status obs = Running"
  shows "deliver obs k (file_event (foo_lua e)) w = (obs, report_world e k w)"
proof -
  have len: "length (watches obs) = 2" by (simp add: ws cycle_watches_def)
  have p: "src_path (file_event (foo_lua e)) = foo_lua e" by (simp add: file_event_def)
  have same: "(watches obs)[k := watches obs ! k] = watches obs" by simp
  consider "k = 0" | "k = Suc 0" | "2 \<le> k" by linarith
  then show ?thesis
  proof cases
    case 1
    have "serve (watches obs ! k) (file_event (foo_lua e)) w =
            (watches obs ! k, None, tests_world e w)"
      unfolding 1 ws by (rule serve_foo_lua(1) [OF ok base])
    moreover have "in_scope (watches obs ! k) (foo_lua e)"
      unfolding 1 ws by (rule cycle_watches_in_scope(1) [OF base])
    ultimately show ?thesis
      using 1 run len same by (simp add: deliver_def p report_world_def)
  next
    case 2
    have "serve (watches obs ! k) (file_event (foo_lua e)) w =
            (watches obs ! k, None, docs_world e w)"
      unfolding 2 ws by (rule serve_foo_lua(2) [OF ok base])
    moreover have "in_scope (watches obs ! k) (foo_lua e)"
      unfolding 2 ws by (rule cycle_watches_in_scope(2) [OF base])
    ultimately show ?thesis
      using 2 run len same by (simp add: deliver_def p report_world_def)
  next
    case 3
    then show ?thesis using len by (simp add: deliver_def report_world_def)
  qed
qed

lemma step_foo_lua:
  assumes ok: "\<forall>c w. exec e c w \<noteq> SpawnFailed" and base: "BASEDIR e \<noteq> []"
    and inv: "main_invariant e s" and run: "status (observer s) = Running"
  shows "step e s (Deliver k (file_event (foo_lua e))) =
           s\<lparr>the_world := report_world e k (the_world s)\<rparr>"
proof -
  have ws: "watches (observer s) = cycle_watches e (fresh s - 3)"
    using inv by (simp add: main_invariant_def)
  have "deliver (observer s) k (file_event (foo_lua e)) (the_world s) =
          (observer s, report_world e k (the_world s))"
    using ok base ws run by (rule deliver_foo_lua)
  then show ?thesis by simp
qed

lemma runs_counted:
  "length (filter is_test_run (procs (report_world e k w))) =
     length (filter is_test_run (procs w)) + (if k = 0 then 1 else 0)"
  "length (filter is_doc_build (procs (report_world e k w))) =
     length (filter is_doc_build (procs w)) + (if k = 1 then 1 else 0)"
  by (simp_all add: report_world_def tests_world_def docs_world_def is_test_run_def
      is_doc_build_def)

lemma foldl_foo_lua_counts:
  assumes ok: "\<forall>c w. exec e c w \<noteq> SpawnFailed" and base: "BASEDIR e \<noteq> []"
  shows "main_invariant e s \<Longrightarrow> status (observer s) = Running \<Longrightarrow>
         length (filter is_test_run
                   (procs (the_world (foldl (step e) s (foo_lua_reports e ks))))) =
           length (filter is_test_run (procs (the_world s))) + count_list ks 0 \<and>
         length (filter is_doc_build
                   (procs (the_world (foldl (step e) s (foo_lua_reports e ks))))) =
           length (filter is_doc_build (procs (the_world s))) + count_list ks 1"
proof (induction ks arbitrary: s)
  case Nil
  then show ?case by (simp add: foo_lua_reports_def)
next
  case (Cons k ks)
  define s1 where "s1 = step e s (Deliver k (file_event (foo_lua e)))"
  have inv: "main_invariant e s1"
    unfolding s1_def using Cons.prems(1) by (rule step_invariant)
  have run: "status (observer s1) = Running"
    unfolding s1_def using ok Cons.prems by (rule status_running_step)
  have "s1 = s\<lparr>the_world := report_world e k (the_world s)\<rparr>"
    unfolding s1_def using ok base Cons.prems by (rule step_foo_lua)
  then have w: "the_world s1 = report_world e k (the_world s)" by simp
  have f: "foldl (step e) s (foo_lua_reports e (k # ks)) =
             foldl (step e) s1 (foo_lua_reports e ks)"
    by (simp only: s1_def foo_lua_reports_def list.map foldl.simps)
  show ?case
    unfolding f using Cons.IH [OF inv run] by (simp add: w runs_counted)
qed

lemma main_foo_lua_counts:
  assumes "\<forall>c w. exec e c w \<noteq> SpawnFailed" and "BASEDIR e \<noteq> []"
  shows "length (filter is_test_run
                   (procs (the_world (main e w0 (foo_lua_reports e ks))))) =
           length (filter is_test_run (procs w0)) + count_list ks 0 \<and>
         length (filter is_doc_build
                   (procs (the_world (main e w0 (foo_lua_reports e ks))))) =
           length (filter is_doc_build (procs w0)) + count_list ks 1"
  using foldl_foo_lua_counts [OF assms, of "loop_head e w0 0 [] []" ks]
  by (simp add: main_def loop_head_invariant handlers_of_def loop_head_fields)

lemma main_foo_lua_two_reports:
  assumes ok: "\<forall>c w. exec e c w \<noteq> SpawnFailed" and base: "BASEDIR e \<noteq> []"
  shows "the_world (main e w0 (foo_lua_reports e [j, k])) =
           report_world e k (report_world e j w0)"
proof -
  define s0 where "s0 = loop_head e w0 0 [] []"
  define s1 where "s1 = step e s0 (Deliver j (file_event (foo_lua e)))"
  define s2 where "s2 = step e s1 (Deliver k (file_event (foo_lua e)))"
  have inv0: "main_invariant e s0"
    unfolding s0_def by (rule loop_head_invariant) (simp_all add: handlers_of_def)
  have run0: "status (observer s0) = Running" by (simp add: s0_def loop_head_fields)
  have w0: "the_world s0 = w0" by (simp add: s0_def loop_head_fields)
  have inv1: "main_invariant e s1" unfolding s1_def using inv0 by (rule step_invariant)
  have run1: "status (observer s1) = Running"
    unfolding s1_def using ok inv0 run0 by (rule status_running_step)
  have "s1 = s0\<lparr>the_world := report_world e j (the_world s0)\<rparr>"
    unfolding s1_def using ok base inv0 run0 by (rule step_foo_lua)
  then have w1: "the_world s1 = report_world e j w0" by (simp add: w0)
  have "s2 = s1\<lparr>the_world := report_world e k (the_world s1)\<rparr>"
    unfolding s2_def using ok base inv1 run1 by (rule step_foo_lua)
  then have w2: "the_world s2 = report_world e k (report_world e j w0)" by (simp add: w1)
  have "main e w0 (foo_lua_reports e [j, k]) = s2"
    by (simp only: main_def foo_lua_reports_def list.map foldl.simps s0_def s1_def s2_def)
  then show ?thesis by (simp only: w2)
qed

text \<open>
  Claim C3, as the code has it: with the handlers and scopes that \<open>main\<close> sets up, the
  file event for \<open>src/foo.lua\<close> below the project directory is in the scope of both
  watches and matches both handlers. Whatever the watches report for the creation of the
  file, and in whatever order, there is one run of the tests for each report of the watch
  of the project directory and one build of the documentation for each report of the
  watch of \<open>src\<close>: when each watch reports the creation once, one run of the tests and
  one build of the documentation, in the order of the reports. Both commands are taken
  to start.
\<close>

theorem foo_lua_triggers_both:
  assumes "\<forall>c w. exec e c w \<noteq> SpawnFailed" and "BASEDIR e \<noteq> []"
  shows "length (filter is_test_run
                   (procs (the_world (main e w0 (foo_lua_reports e ks))))) =
           length (filter is_test_run (procs w0)) + count_list ks 0 \<and>
         length (filter is_doc_build
                   (procs (the_world (main e w0 (foo_lua_reports e ks))))) =
           length (filter is_doc_build (procs w0)) + count_list ks 1 \<and>
         procs (the_world (main e w0 (foo_lua_reports e [0, 1]))) =
           procs w0 @ [\<lparr>args = ''busted'', shell = False\<rparr>,
                       \<lparr>args = ''ldoc.lua src'', shell = True\<rparr>] \<and>
         procs (the_world (main e w0 (foo_lua_reports e [1, 0]))) =
           procs w0 @ [\<lparr>args = ''ldoc.lua src'', shell = True\<rparr>,
                       \<lparr>args = ''busted'', shell = False\<rparr>]"
  using main_foo_lua_counts [OF assms, of w0 ks]
  by (simp add: main_foo_lua_two_reports [OF assms] report_world_def docs_world_def
      tests_world_def)

text \<open>
  Claim C3, as amended, for the project directory \<open>/proj\<close>, the watch of \<open>src\<close>
  reporting first.
\<close>

theorem foo_lua_triggers_both_witness:
  "BASEDIR (example_env 1) = ''/proj'' \<and> foo_lua (example_env 1) = ''/proj/src/foo.lua'' \<and>
   exec (example_env 1) \<lparr>args = ''busted'', shell = False\<rparr> empty_world = Exited 1 \<and>
   length (filter is_test_run (procs (the_world (main (example_env 1) empty_world
            (foo_lua_reports (example_env 1) [1, 0]))))) = 1 \<and>
   length (filter is_doc_build (procs (the_world (main (example_env 1) empty_world
            (foo_lua_reports (example_env 1) [1, 0]))))) = 1 \<and>
   procs (the_world (main (example_env 1) empty_world
            (foo_lua_reports (example_env 1) [1, 0]))) =
     [\<lparr>args = ''ldoc.lua src'', shell = True\<rparr>, \<lparr>args = ''busted'', shell = False\<rparr>]"
proof -
  have b: "BASEDIR (example_env 1) \<noteq> []" by (simp add: example_env_def)
  have f: "foo_lua (example_env 1) = ''/proj/src/foo.lua''"
    by (simp add: foo_lua_eq [OF b]) (simp add: example_env_def dir_prefix_def)
  have x: "BASEDIR (example_env 1) = ''/proj''"
    "exec (example_env 1) \<lparr>args = ''busted'', shell = False\<rparr> empty_world = Exited 1"
    by (simp_all add: example_env_def)
  have w: "procs empty_world = []" by (simp add: empty_world_def)
  show ?thesis
    using foo_lua_triggers_both [OF example_env_ok b, of empty_world "[1, 0]"] f x
    by (simp add: w is_test_run_def is_doc_build_def)
qed

text \<open>
  Claim C3 as it is written fails: when both watches report the creation of
  \<open>/proj/src/foo.lua\<close> once, in either order, there is one run of the tests, not none.
\<close>

theorem foo_lua_test_run_counterexample:
  "length (filter is_test_run
     (procs (the_world (main (example_env 0) empty_world
        [Deliver 0 (file_event ''/proj/src/foo.lua''),
         Deliver 1 (file_event ''/proj/src/foo.lua'')])))) = 1 \<and>
   length (filter is_test_run
     (procs (the_world (main (example_env 0) empty_world
        [Deliver 1 (file_event ''/proj/src/foo.lua''),
         Deliver 0 (file_event ''/proj/src/foo.lua'')])))) = 1"
proof -
  have b: "BASEDIR (example_env 0) \<noteq> []" by (simp add: example_env_def)
  have f: "foo_lua (example_env 0) = ''/proj/src/foo.lua''"
    by (simp add: foo_lua_eq [OF b]) (simp add: example_env_def dir_prefix_def)
  have w: "procs empty_world = []" by (simp add: empty_world_def)
  show ?thesis
    using main_foo_lua_counts [OF example_env_ok b, of empty_world "[0, 1]"]
      main_foo_lua_counts [OF example_env_ok b, of empty_world "[1, 0]"]
    by (simp add: foo_lua_reports_def f w)
qed

text \<open>
  Claim C7: after any inputs, an interrupt makes the main thread call, in this order,
  \<open>stop\<close> and \<open>join\<close> on the observer, then the constructors of two new handlers and
  of a new observer, \<open>schedule\<close> for each handler and \<open>start\<close>. The observer that was
  running is retired as joined; the new observer is running and holds the two
  registrations of the new pass. Before and after, exactly the pair of handlers of the
  current pass is live; the new pair shares no object with the old pair nor with any
  retired observer.
\<close>

theorem interrupt_restarts_watch_cycle:
  "(let s = main e w0 ins; s' = main e w0 (ins @ [Interrupt]) in
    steps s' = steps s @
      [Stop (observer_id (observer s)), Join (observer_id (observer s)),
       NewChangeHandler (test_handler s'), NewChangeHandler (docs_handler s'),
       NewObserver (observer_id (observer s')),
       Schedule (observer_id (observer s')) (test_handler s'),
       Schedule (observer_id (observer s')) (docs_handler s'),
       Start (observer_id (observer s'))] \<and>
    retired s' = (observer s)\<lparr>status := Joined\<rparr> # retired s \<and>
    status (observer s') = Running \<and>
    watches (observer s') = cycle_watches e (test_handler s') \<and>
    live_handlers s = [test_handler s, docs_handler s] \<and>
    live_handlers s' = [test_handler s', docs_handler s'] \<and>
    test_handler s' \<noteq> docs_handler s' \<and>
    observer_id (observer s') \<noteq> observer_id (observer s) \<and>
    set (live_handlers s') \<inter> set (live_handlers s) = {} \<and>
    set (live_handlers s') \<inter> set (retired_handlers s') = {} \<and>
    the_world s' = the_world s)"
proof -
  define s where "s = main e w0 ins"
  define s' where "s' = main e w0 (ins @ [Interrupt])"
  define obs where "obs = join (stop (observer s))"
  have inv: "main_invariant e s" unfolding s_def by (rule main_invariant_holds)
  have inv': "main_invariant e s'" unfolding s'_def by (rule main_invariant_holds)
  have s'_eq: "s' = loop_head e (the_world s) (fresh s) (obs # retired s)
                 (steps s @ [Stop (observer_id obs), Join (observer_id obs)])"
    unfolding s'_def s_def obs_def by (simp add: main_snoc Let_def)
  have obs_id: "observer_id obs = observer_id (observer s)"
    and obs_eq: "obs = (observer s)\<lparr>status := Joined\<rparr>"
    by (simp_all add: obs_def join_def stop_def)
  have f3: "3 \<le> fresh s" and th: "test_handler s = fresh s - 3"
    and dh: "docs_handler s = fresh s - 2" and oi: "observer_id (observer s) = fresh s - 1"
    and ws: "watches (observer s) = cycle_watches e (fresh s - 3)"
    using inv by (simp_all add: main_invariant_def)
  have live: "live_handlers s = [test_handler s, docs_handler s]"
    using f3 by (simp add: live_handlers_def ws cycle_watches_def th dh)
  have th': "test_handler s' = fresh s" and dh': "docs_handler s' = fresh s + 1"
    and oi': "observer_id (observer s') = fresh s + 2"
    and ws': "watches (observer s') = cycle_watches e (fresh s)"
    and st': "status (observer s') = Running"
    and rt': "retired s' = obs # retired s" and w': "the_world s' = the_world s"
    and fr': "fresh s' = fresh s + 3"
    by (simp_all add: s'_eq loop_head_fields)
  have steps': "steps s' = steps s @
      [Stop (observer_id (observer s)), Join (observer_id (observer s)),
       NewChangeHandler (test_handler s'), NewChangeHandler (docs_handler s'),
       NewObserver (observer_id (observer s')),
       Schedule (observer_id (observer s')) (test_handler s'),
       Schedule (observer_id (observer s')) (docs_handler s'),
       Start (observer_id (observer s'))]"
    unfolding th' dh' oi' by (simp add: s'_eq loop_head_fields obs_id)
  have live': "live_handlers s' = [test_handler s', docs_handler s']"
    by (simp add: live_handlers_def ws' cycle_watches_def th' dh')
  have old: "list_all (\<lambda>i. i < fresh s' - 3) (retired_handlers s')"
    using inv' by (simp add: main_invariant_def)
  have disj_ret: "set (live_handlers s') \<inter> set (retired_handlers s') = {}"
    using old unfolding live' th' dh' fr' by (auto simp: list_all_iff)
  have disj_live: "set (live_handlers s') \<inter> set (live_handlers s) = {}"
    unfolding live live' th dh th' dh' using f3 by auto
  have "steps s' = steps s @
      [Stop (observer_id (observer s)), Join (observer_id (observer s)),
       NewChangeHandler (test_handler s'), NewChangeHandler (docs_handler s'),
       NewObserver (observer_id (observer s')),
       Schedule (observer_id (observer s')) (test_handler s'),
       Schedule (observer_id (observer s')) (docs_handler s'),
       Start (observer_id (observer s'))] \<and>
    retired s' = (observer s)\<lparr>status := Joined\<rparr> # retired s \<and>
    status (observer s') = Running \<and>
    watches (observer s') = cycle_watches e (test_handler s') \<and>
    live_handlers s = [test_handler s, docs_handler s] \<and>
    live_handlers s' = [test_handler s', docs_handler s'] \<and>
    test_handler s' \<noteq> docs_handler s' \<and>
    observer_id (observer s') \<noteq> observer_id (observer s) \<and>
    set (live_handlers s') \<inter> set (live_handlers s) = {} \<and>
    set (live_handlers s') \<inter> set (retired_handlers s') = {} \<and>
    the_world s' = the_world s"
    using steps' live live' disj_ret disj_live st' w'
    by (simp add: rt' obs_eq ws' th' dh' oi' oi)
  then show ?thesis
    unfolding s_def s'_def Let_def .
qed

lemma main_handler_exts:
  "map (\<lambda>wt. exts (handler wt)) (watches (observer (main e w0 ins))) = [[''.lua''], [''.lua'']]"
proof -
  have "watches (observer (main e w0 ins)) = cycle_watches e (fresh (main e w0 ins) - 3)"
    using main_invariant_holds [of e w0 ins] by (simp add: main_invariant_def)
  then show ?thesis by (simp add: cycle_watches_def ChangeHandler_init_def)
qed

text \<open>
  Claim C8: \<open>on_any_event\<close> returns the handler as it was, so its watched extensions
  stay as constructed; a sequence is stored as given; a single string gives the same
  handler as the one-element sequence; two sequences with the same elements, in any
  order, give handlers that behave alike; and in every state of \<open>main\<close> the two
  registered handlers watch \<open>.lua\<close> alone.
\<close>

theorem handler_extensions_fixed:
  "fst (on_any_event h ev w) = h \<and>
   exts (fst (on_any_event h ev w)) = exts h \<and>
   exts (ChangeHandler_init (Seq xs) f) = xs \<and>
   ChangeHandler_init (Str x) f = ChangeHandler_init (Seq [x]) f \<and>
   (set xs = set ys \<longrightarrow>
      snd (on_any_event (ChangeHandler_init (Seq xs) f) ev w) =
      snd (on_any_event (ChangeHandler_init (Seq ys) f) ev w)) \<and>
   map (\<lambda>wt. exts (handler wt)) (watches (observer (main e w0 ins))) = [[''.lua''], [''.lua'']]"
  by (simp add: main_handler_exts on_any_event_def ChangeHandler_init_def)

text \<open>Claim C8 for the sequences \<open>.lua\<close>, \<open>.md\<close> and \<open>.md\<close>, \<open>.lua\<close>.\<close>

theorem handler_extensions_fixed_witness:
  "set [''.lua'', ''.md''] = set [''.md'', ''.lua''] \<and>
   snd (on_any_event (ChangeHandler_init (Seq [''.lua'', ''.md'']) record_call)
          (file_event ''doc/index.md'') []) = (None, [file_event ''doc/index.md'']) \<and>
   snd (on_any_event (ChangeHandler_init (Seq [''.md'', ''.lua'']) record_call)
          (file_event ''doc/index.md'') []) = (None, [file_event ''doc/index.md'']) \<and>
   ChangeHandler_init (Str ''.lua'') record_call = ChangeHandler_init (Seq [''.lua'']) record_call"
proof -
  have s: "set [''.lua'', ''.md''] = set [''.md'', ''.lua'']" by auto
  have g: "getext ''doc/index.md'' = ''.md''" by code_simp
  have r: "snd (on_any_event (ChangeHandler_init (Seq [''.md'', ''.lua'']) record_call)
          (file_event ''doc/index.md'') []) = (None, [file_event ''doc/index.md''])"
    by (simp add: on_any_event_def ChangeHandler_init_def record_call_def file_event_def g)
  show ?thesis
    using handler_extensions_fixed
      [of "ChangeHandler_init (Seq [''.lua'', ''.md'']) record_call" "file_event ''doc/index.md''"
          "[]" "[''.lua'', ''.md'']" record_call "''.lua''" "[''.md'', ''.lua'']"] s r
    by simp
qed

lemma separator_length: "length separator = 79"
  by (simp add: separator_def)

lemma separator_not_tests_banner:
  "separator \<noteq> ''Running unit tests at 2012/03/09 07:45:00''"
proof
  assume "separator = ''Running unit tests at 2012/03/09 07:45:00''"
  then have "length separator = length ''Running unit tests at 2012/03/09 07:45:00''"
    by (rule arg_cong)
  then show False by (simp add: separator_length)
qed

text \<open>
  Claim C5 as it is written fails: after one run of the tests runner the separator lines
  are on standard output, and standard error holds the banner only.
\<close>

theorem separators_on_stdout_counterexample:
  "stderr (snd (run_tests (example_env 0) (file_event ''/proj/src/foo.lua'') empty_world))
     = [''Running unit tests at 2012/03/09 07:45:00''] \<and>
   stdout (snd (run_tests (example_env 0) (file_event ''/proj/src/foo.lua'') empty_world))
     = [separator, separator] \<and>
   separator \<notin> set (stderr (snd (run_tests (example_env 0)
                      (file_event ''/proj/src/foo.lua'') empty_world)))"
  by (simp add: run_tests_exited [OF example_env_ok] tests_world_def example_now
      empty_world_def separator_not_tests_banner)

text \<open>Claim C5, as amended, in the concrete environment with exit status 1.\<close>

theorem runner_log_streams_witness:
  "exec (example_env 1) \<lparr>args = ''ldoc.lua src'', shell = True\<rparr> empty_world = Exited 1 \<and>
   stderr (snd (build_docs (example_env 1) (file_event ''/proj/src/foo.lua'') empty_world))
     = [''Building docs at 2012/03/09 07:45:00''] \<and>
   stdout (snd (build_docs (example_env 1) (file_event ''/proj/src/foo.lua'') empty_world))
     = [separator, separator] \<and>
   stdout (snd (run_tests (example_env 1) (file_event ''/proj/src/foo.lua'') empty_world))
     = [separator, separator] \<and>
   timestamp_shape ''2012/03/09 07:45:00''"
proof -
  have e: "exec (example_env 1) \<lparr>args = ''ldoc.lua src'', shell = True\<rparr> empty_world = Exited 1"
    by (simp add: example_env_def)
  have w: "stderr empty_world = []" "stdout empty_world = []"
    by (simp_all add: empty_world_def)
  show ?thesis
    using runner_log_streams [of "example_env 1" "file_event ''/proj/src/foo.lua''" empty_world]
      e example_env_ok [of 1]
    by (simp add: example_now w)
qed

text \<open>Claim C6 with exit status 1 against exit status 0.\<close>

theorem exit_status_discarded_witness:
  "exec (example_env 1) \<lparr>args = ''busted'', shell = False\<rparr> empty_world = Exited 1 \<and>
   exec (example_env 0) \<lparr>args = ''busted'', shell = False\<rparr> empty_world = Exited 0 \<and>
   fst (run_tests (example_env 1) (file_event ''/proj/src/foo.lua'') empty_world) = None \<and>
   procs (snd (run_tests (example_env 1) (file_event ''/proj/src/foo.lua'') empty_world))
     = [\<lparr>args = ''busted'', shell = False\<rparr>] \<and>
   stdout (snd (run_tests (example_env 1) (file_event ''/proj/src/foo.lua'') empty_world))
     = [separator, separator] \<and>
   run_tests (example_env 0) (file_event ''/proj/src/foo.lua'') empty_world
     = run_tests (example_env 1) (file_event ''/proj/src/foo.lua'') empty_world \<and>
   main (example_env 0) empty_world [Deliver 0 (file_event ''/proj/src/foo.lua''), Tick]
     = main (example_env 1) empty_world [Deliver 0 (file_event ''/proj/src/foo.lua''), Tick] \<and>
   status (observer (main (example_env 1) empty_world
                       [Deliver 0 (file_event ''/proj/src/foo.lua''), Tick])) = Running"
proof -
  have b: "BASEDIR (example_env 0) = BASEDIR (example_env 1)"
    and c: "clock (example_env 0) = clock (example_env 1)"
    and x: "exec (example_env 1) \<lparr>args = ''busted'', shell = False\<rparr> empty_world = Exited 1"
       "exec (example_env 0) \<lparr>args = ''busted'', shell = False\<rparr> empty_world = Exited 0"
    by (simp_all add: example_env_def)
  have w: "procs empty_world = []" "stdout empty_world = []"
    by (simp_all add: empty_world_def)
  show ?thesis
    using exit_status_discarded [OF example_env_ok example_env_ok b c,
        of "file_event ''/proj/src/foo.lua''" empty_world empty_world
           "[Deliver 0 (file_event ''/proj/src/foo.lua''), Tick]"] x
    by (simp add: tests_world_def w)
qed

end
